theory Spec2Isabelle
  imports Main "HOL-Library.List_Lexorder" "HOL-Library.Char_ord"
begin

section \<open>The metadata store of tagfs (\<^verbatim>\<open>src/tagfs/db.py\<close>)\<close>

text \<open>
  The store is an SQLite file with five tables, created by \<^verbatim>\<open>Database.INIT\<close>.  Every
  handle operation is a short sequence of SQL statements run on one connection, usually
  followed by \<^verbatim>\<open>commit()\<close>.  The embedding below keeps that shape: a table is the list of
  its rows in rowid order, each SQL statement of the source is one function on the
  database, and each method of a cursor class is one function on the connection that
  runs the statements of its body in the order of the source.  Ids are Python's unbounded
  integers; an id outside SQLite's 64 bits, which makes \<^verbatim>\<open>sqlite3\<close> raise before the statement
  runs, is not distinguished.
\<close>

subsection \<open>Values\<close>

text \<open>\<^verbatim>\<open>name_id = typing.Union[str, int]\<close>: a reference is a textual name or a numeric id.\<close>

datatype name_id = Str string | Num int

text \<open>The reserved name of the sentinel tag.\<close>

abbreviation ALL_NAME :: string where
  "ALL_NAME \<equiv> ''__ALL__''"

text \<open>
  A value stored in the untyped column \<^verbatim>\<open>options.value\<close>; \<open>Null\<close> is Python's \<^verbatim>\<open>None\<close>.  The
  column also takes floats and byte strings, which are left out here, as is the
  \<^verbatim>\<open>OverflowError\<close> of an integer outside 64 bits.
\<close>

datatype sql_value = Null | Integer int | Text string

text \<open>The two exceptions of \<^verbatim>\<open>sqlite3\<close> that the statements of the source can raise.\<close>

datatype error = IntegrityError | OperationalError

subsection \<open>Tables (\<^verbatim>\<open>Database.INIT\<close>)\<close>

text \<open>\<^verbatim>\<open>tags(id INTEGER PRIMARY KEY, name TEXT UNIQUE)\<close>\<close>

record tag_row =
  t_id :: int
  t_name :: string

text \<open>\<^verbatim>\<open>tag_files(tag_id INTEGER, file_id INTEGER)\<close>: both columns are nullable.\<close>

record tag_file_row =
  tag_id :: "int option"
  file_id :: "int option"

text \<open>\<^verbatim>\<open>files(id INTEGER PRIMARY KEY, name TEXT, path TEXT)\<close>\<close>

record file_row =
  f_id :: int
  f_name :: string
  f_path :: string

text \<open>\<^verbatim>\<open>options(name TEXT UNIQUE, value)\<close>\<close>

record option_row =
  o_name :: string
  o_value :: sql_value

text \<open>\<^verbatim>\<open>selections(name TEXT UNIQUE, value TEXT)\<close>\<close>

record selection_row =
  s_name :: string
  s_value :: string

record database =
  tags :: "tag_row list"
  tag_files :: "tag_file_row list"
  files :: "file_row list"
  options :: "option_row list"
  selections :: "selection_row list"

text \<open>
  A connection: \<open>db\<close> is the state the connection reads and writes (its open transaction
  included), \<open>commits\<close> is the sequence of states that \<^verbatim>\<open>commit()\<close> has made durable, oldest
  first.  A statement that raises is undone by SQLite on its own, the transaction stays
  open, so a raising operation returns the connection as it was before that statement.
\<close>

record connection =
  db :: database
  commits :: "database list"

definition INIT :: database where
  "INIT = \<lparr>tags = [], tag_files = [], files = [], options = [], selections = []\<rparr>"

definition connect :: connection where
  "connect = \<lparr>db = INIT, commits = [INIT]\<rparr>"

definition commit :: "connection \<Rightarrow> connection" where
  "commit c = c\<lparr>commits := commits c @ [db c]\<rparr>"

definition execute :: "(database \<Rightarrow> database) \<Rightarrow> connection \<Rightarrow> connection" where
  "execute stmt c = c\<lparr>db := stmt (db c)\<rparr>"

subsection \<open>SQL statements of the source\<close>

text \<open>
  \<^verbatim>\<open>column = ?\<close> in a WHERE clause: a comparison with NULL on either side is not true,
  so a parameter bound to \<^verbatim>\<open>None\<close> matches no row.
\<close>

definition sql_eq :: "int option \<Rightarrow> int option \<Rightarrow> bool" where
  "sql_eq a b = (case a of None \<Rightarrow> False | Some x \<Rightarrow> (case b of None \<Rightarrow> False | Some y \<Rightarrow> x = y))"

text \<open>
  The id SQLite gives a row inserted without one into an INTEGER PRIMARY KEY column: one
  more than the largest id in the table, 1 for an empty table.  (Ids are unbounded here;
  SQLite leaves this rule only when the largest id is \<open>2 ^ 63 - 1\<close>.)
\<close>

definition next_rowid :: "int list \<Rightarrow> int" where
  "next_rowid ids = (case ids of [] \<Rightarrow> 1 | x # xs \<Rightarrow> fold max xs x + 1)"

text \<open>\<^verbatim>\<open>INSERT INTO tags(name) VALUES (?)\<close>; \<^verbatim>\<open>name\<close> is UNIQUE.\<close>

definition insert_tags :: "string \<Rightarrow> database \<Rightarrow> error + database" where
  "insert_tags name d =
     (if name \<in> set (map t_name (tags d)) then Inl IntegrityError
      else Inr (d\<lparr>tags := tags d @ [\<lparr>t_id = next_rowid (map t_id (tags d)), t_name = name\<rparr>]\<rparr>))"

text \<open>\<^verbatim>\<open>DELETE FROM tag_files WHERE tag_id = ?\<close>\<close>

definition delete_tag_files_tag_id :: "int option \<Rightarrow> database \<Rightarrow> database" where
  "delete_tag_files_tag_id i d = d\<lparr>tag_files := filter (\<lambda>a. \<not> sql_eq (tag_id a) i) (tag_files d)\<rparr>"

text \<open>\<^verbatim>\<open>DELETE FROM tag_files WHERE file_id = ?\<close>\<close>

definition delete_tag_files_file_id :: "int option \<Rightarrow> database \<Rightarrow> database" where
  "delete_tag_files_file_id i d = d\<lparr>tag_files := filter (\<lambda>a. \<not> sql_eq (file_id a) i) (tag_files d)\<rparr>"

text \<open>\<^verbatim>\<open>DELETE FROM tag_files WHERE tag_id = ? AND file_id = ?\<close>\<close>

definition delete_tag_files_both :: "int option \<Rightarrow> int option \<Rightarrow> database \<Rightarrow> database" where
  "delete_tag_files_both t f d =
     d\<lparr>tag_files := filter (\<lambda>a. \<not> (sql_eq (tag_id a) t \<and> sql_eq (file_id a) f)) (tag_files d)\<rparr>"

text \<open>\<^verbatim>\<open>INSERT INTO tag_files(tag_id, file_id) VALUES(?, ?)\<close>: no constraint at all.\<close>

definition insert_tag_files :: "int option \<Rightarrow> int option \<Rightarrow> database \<Rightarrow> database" where
  "insert_tag_files t f d = d\<lparr>tag_files := tag_files d @ [\<lparr>tag_id = t, file_id = f\<rparr>]\<rparr>"

text \<open>
  \<^verbatim>\<open>SELECT files.name FROM files INNER JOIN tag_files ON tag_files.file_id = files.id
  WHERE tag_files.tag_id = ?\<close>: SQLite scans \<^verbatim>\<open>tag_files\<close> and looks the file up by its id, so
  the result has each \<^verbatim>\<open>tag_files\<close> row of the given tag id, once for every file row whose
  id it names.
\<close>

definition select_files_name_tag_id :: "int option \<Rightarrow> database \<Rightarrow> string list" where
  "select_files_name_tag_id t d =
     concat (map (\<lambda>a. map f_name (filter (\<lambda>f. sql_eq (file_id a) (Some (f_id f))) (files d)))
                 (filter (\<lambda>a. sql_eq (tag_id a) t) (tag_files d)))"

text \<open>
  \<^verbatim>\<open>SELECT tags.name FROM tag_files INNER JOIN tags ON tags.id = tag_files.tag_id WHERE
  tag_files.file_id = ?\<close>: each \<^verbatim>\<open>tag_files\<close> row of the given file id, once for every tag
  row whose id it names.
\<close>

definition select_tags_name_file_id :: "int option \<Rightarrow> database \<Rightarrow> string list" where
  "select_tags_name_file_id i d =
     concat (map (\<lambda>a. map t_name (filter (\<lambda>t. sql_eq (tag_id a) (Some (t_id t))) (tags d)))
                 (filter (\<lambda>a. sql_eq (file_id a) i) (tag_files d)))"

text \<open>\<^verbatim>\<open>SELECT tag_id FROM tag_files WHERE tag_id = ? AND file_id = ?\<close>\<close>

definition select_tag_files_both :: "int option \<Rightarrow> int option \<Rightarrow> database \<Rightarrow> int option list" where
  "select_tag_files_both t f d =
     map tag_id (filter (\<lambda>a. sql_eq (tag_id a) t \<and> sql_eq (file_id a) f) (tag_files d))"

text \<open>\<^verbatim>\<open>DELETE FROM tags WHERE id = ?\<close>\<close>

definition delete_tags_id :: "int option \<Rightarrow> database \<Rightarrow> database" where
  "delete_tags_id i d = d\<lparr>tags := filter (\<lambda>r. \<not> sql_eq (Some (t_id r)) i) (tags d)\<rparr>"

text \<open>
  \<^verbatim>\<open>UPDATE tags SET name = ? WHERE ...\<close>, the WHERE clause as a predicate on rows.  The
  statement raises when the updated table would hold a name twice.
\<close>

definition update_tags_name :: "(tag_row \<Rightarrow> bool) \<Rightarrow> string \<Rightarrow> database \<Rightarrow> error + database" where
  "update_tags_name wh dst d =
     (let rows = map (\<lambda>r. if wh r then r\<lparr>t_name := dst\<rparr> else r) (tags d)
      in if distinct (map t_name rows) then Inr (d\<lparr>tags := rows\<rparr>) else Inl IntegrityError)"

text \<open>\<^verbatim>\<open>INSERT INTO files(name, path) VALUES (?, ?)\<close>: \<^verbatim>\<open>files.name\<close> is not UNIQUE.\<close>

definition insert_files :: "string \<Rightarrow> string \<Rightarrow> database \<Rightarrow> database" where
  "insert_files name path d =
     d\<lparr>files := files d @ [\<lparr>f_id = next_rowid (map f_id (files d)), f_name = name, f_path = path\<rparr>]\<rparr>"

text \<open>\<^verbatim>\<open>DELETE FROM files WHERE id = ?\<close>\<close>

definition delete_files_id :: "int option \<Rightarrow> database \<Rightarrow> database" where
  "delete_files_id i d = d\<lparr>files := filter (\<lambda>r. \<not> sql_eq (Some (f_id r)) i) (files d)\<rparr>"

text \<open>\<^verbatim>\<open>UPDATE files SET name = ? WHERE ...\<close>\<close>

definition update_files_name :: "(file_row \<Rightarrow> bool) \<Rightarrow> string \<Rightarrow> database \<Rightarrow> database" where
  "update_files_name wh dst d = d\<lparr>files := map (\<lambda>r. if wh r then r\<lparr>f_name := dst\<rparr> else r) (files d)\<rparr>"

text \<open>\<^verbatim>\<open>INSERT INTO selections(name, value) VALUES(?, ?)\<close>; \<^verbatim>\<open>name\<close> is UNIQUE.\<close>

definition insert_selections :: "string \<Rightarrow> string \<Rightarrow> database \<Rightarrow> error + database" where
  "insert_selections name v d =
     (if name \<in> set (map s_name (selections d)) then Inl IntegrityError
      else Inr (d\<lparr>selections := selections d @ [\<lparr>s_name = name, s_value = v\<rparr>]\<rparr>))"

text \<open>\<^verbatim>\<open>DELETE FROM selections WHERE name = ?\<close>\<close>

definition delete_selections :: "string \<Rightarrow> database \<Rightarrow> database" where
  "delete_selections name d = d\<lparr>selections := filter (\<lambda>r. s_name r \<noteq> name) (selections d)\<rparr>"

text \<open>\<^verbatim>\<open>UPDATE selections SET name = ? WHERE name = ?\<close>\<close>

definition update_selections_name :: "string \<Rightarrow> string \<Rightarrow> database \<Rightarrow> error + database" where
  "update_selections_name dst src d =
     (let rows = map (\<lambda>r. if s_name r = src then r\<lparr>s_name := dst\<rparr> else r) (selections d)
      in if distinct (map s_name rows) then Inr (d\<lparr>selections := rows\<rparr>) else Inl IntegrityError)"

text \<open>
  \<^verbatim>\<open>INSERT OR REPLACE INTO options(name, value) VALUES(?, ?)\<close>: a row with the same name
  is deleted, then the new row is inserted.
\<close>

definition replace_options :: "string \<Rightarrow> sql_value \<Rightarrow> database \<Rightarrow> database" where
  "replace_options name v d =
     d\<lparr>options := filter (\<lambda>r. o_name r \<noteq> name) (options d) @ [\<lparr>o_name = name, o_value = v\<rparr>]\<rparr>"

text \<open>
  The words an SQLite statement can start with.  \<^verbatim>\<open>execute\<close> compiles the statement
  text first and raises \<^verbatim>\<open>sqlite3.OperationalError\<close> (a syntax error) on any other word,
  before any row is touched.
\<close>

definition sql_verbs :: "string list" where
  "sql_verbs = [''ALTER'', ''ANALYZE'', ''ATTACH'', ''BEGIN'', ''COMMIT'', ''CREATE'', ''DELETE'',
     ''DETACH'', ''DROP'', ''END'', ''EXPLAIN'', ''INSERT'', ''PRAGMA'', ''REINDEX'', ''RELEASE'',
     ''REPLACE'', ''ROLLBACK'', ''SAVEPOINT'', ''SELECT'', ''UPDATE'', ''VACUUM'', ''VALUES'', ''WITH'']"

definition prepare :: "string \<Rightarrow> error + unit" where
  "prepare verb = (if verb \<in> set sql_verbs then Inr () else Inl OperationalError)"

text \<open>The rows a statement \<^verbatim>\<open>... FROM options WHERE name = ?\<close> addresses, taken away.\<close>

definition from_options_where_name :: "string \<Rightarrow> database \<Rightarrow> database" where
  "from_options_where_name name d = d\<lparr>options := filter (\<lambda>r. o_name r \<noteq> name) (options d)\<rparr>"

subsection \<open>\<^verbatim>\<open>_TagsCursor\<close>\<close>

text \<open>
  \<^verbatim>\<open>get_id\<close>: a numeric reference is returned as it is, with no look at the table; the
  sentinel name gives -1; any other name is looked up, \<^verbatim>\<open>None\<close> when no row has it.
\<close>

definition tags_get_id :: "connection \<Rightarrow> name_id \<Rightarrow> int option" where
  "tags_get_id c name =
     (case name of
        Num i \<Rightarrow> Some i
      | Str n \<Rightarrow>
          if n = ALL_NAME then Some (- 1)
          else map_option t_id (find (\<lambda>r. t_name r = n) (tags (db c))))"


definition tags_new :: "connection \<Rightarrow> string \<Rightarrow> (error + bool) \<times> connection" where
  "tags_new c name =
     (if name = ALL_NAME then (Inr False, c)
      else case insert_tags name (db c) of
             Inl e \<Rightarrow> (Inl e, c)
           | Inr d \<Rightarrow> (Inr True, commit (c\<lparr>db := d\<rparr>)))"

definition tags_remove :: "connection \<Rightarrow> name_id \<Rightarrow> (error + bool) \<times> connection" where
  "tags_remove c name =
     (if name = Str ALL_NAME then (Inr False, c)
      else let i = tags_get_id c name;
               c1 = execute (delete_tag_files_tag_id i) c;
               c2 = execute (delete_tags_id i) c1
           in (Inr True, commit c2))"

definition tags_all_names :: "connection \<Rightarrow> string list" where
  "tags_all_names c = map t_name (tags (db c))"

definition tags_all_ids :: "connection \<Rightarrow> int list" where
  "tags_all_ids c = map t_id (tags (db c))"

definition tags_rename :: "connection \<Rightarrow> name_id \<Rightarrow> string \<Rightarrow> (error + bool) \<times> connection" where
  "tags_rename c src dst =
     (if src = Str ALL_NAME \<or> dst = ALL_NAME then (Inr False, c)
      else case (case src of
                   Num i \<Rightarrow> update_tags_name (\<lambda>r. t_id r = i) dst (db c)
                 | Str n \<Rightarrow> update_tags_name (\<lambda>r. t_name r = n) dst (db c)) of
             Inl e \<Rightarrow> (Inl e, c)
           | Inr d \<Rightarrow> (Inr True, commit (c\<lparr>db := d\<rparr>)))"

definition tags_exists :: "connection \<Rightarrow> name_id \<Rightarrow> bool" where
  "tags_exists c name = (tags_get_id c name \<noteq> None)"

subsection \<open>\<^verbatim>\<open>_FilesCursor\<close>\<close>

definition files_new :: "connection \<Rightarrow> string \<Rightarrow> string \<Rightarrow> (error + bool) \<times> connection" where
  "files_new c name path = (Inr True, commit (execute (insert_files name path) c))"

definition files_get_id :: "connection \<Rightarrow> name_id \<Rightarrow> int option" where
  "files_get_id c name =
     (case name of
        Num i \<Rightarrow> Some i
      | Str n \<Rightarrow> map_option f_id (find (\<lambda>r. f_name r = n) (files (db c))))"


definition files_remove :: "connection \<Rightarrow> name_id \<Rightarrow> (error + bool) \<times> connection" where
  "files_remove c name =
     (let i = files_get_id c name;
          c1 = execute (delete_tag_files_file_id i) c;
          c2 = execute (delete_files_id i) c1
      in (Inr True, commit c2))"

definition files_all_names :: "connection \<Rightarrow> string list" where
  "files_all_names c = map f_name (files (db c))"

definition files_all_ids :: "connection \<Rightarrow> int list" where
  "files_all_ids c = map f_id (files (db c))"

definition files_rename :: "connection \<Rightarrow> name_id \<Rightarrow> string \<Rightarrow> (error + bool) \<times> connection" where
  "files_rename c src dst =
     (let c1 = (case src of
                  Num i \<Rightarrow> execute (update_files_name (\<lambda>r. f_id r = i) dst) c
                | Str n \<Rightarrow> execute (update_files_name (\<lambda>r. f_name r = n) dst) c)
      in (Inr True, commit c1))"

definition files_exists :: "connection \<Rightarrow> name_id \<Rightarrow> bool" where
  "files_exists c name = (files_get_id c name \<noteq> None)"

definition files_get_by_tag :: "connection \<Rightarrow> name_id \<Rightarrow> string list" where
  "files_get_by_tag c tag =
     (if tag = Str ALL_NAME then files_all_names c
      else let t = tags_get_id c tag
           in select_files_name_tag_id t (db c))"

definition files_add_tag :: "connection \<Rightarrow> name_id \<Rightarrow> name_id \<Rightarrow> (error + bool) \<times> connection" where
  "files_add_tag c name tag =
     (if tag = Str ALL_NAME then (Inr False, c)
      else (Inr True, commit (execute (insert_tag_files (tags_get_id c tag) (files_get_id c name)) c)))"

definition files_remove_tag :: "connection \<Rightarrow> name_id \<Rightarrow> name_id \<Rightarrow> (error + bool) \<times> connection" where
  "files_remove_tag c name tag =
     (if tag = Str ALL_NAME then (Inr False, c)
      else (Inr True, commit (execute (delete_tag_files_both (tags_get_id c tag) (files_get_id c name)) c)))"

definition files_has_tag :: "connection \<Rightarrow> name_id \<Rightarrow> name_id \<Rightarrow> bool" where
  "files_has_tag c name tag =
     (if tag = Str ALL_NAME \<or> tag = Num (- 1) then True
      else 0 < length (select_tag_files_both (tags_get_id c tag) (files_get_id c name) (db c)))"


definition files_get_tags :: "connection \<Rightarrow> name_id \<Rightarrow> string list" where
  "files_get_tags c name =
     (let i = files_get_id c name
      in select_tags_name_file_id i (db c))"

text \<open>
  The loop of \<^verbatim>\<open>set_tags\<close>.  \<^verbatim>\<open>t.get_id(tag)\<close> is \<^verbatim>\<open>None\<close> only for a name, which is then
  created with \<^verbatim>\<open>t.new(tag)\<close> (a call of the method above, \<^verbatim>\<open>commit()\<close> included) and looked
  up again; an exception of \<^verbatim>\<open>t.new\<close> leaves the loop and the method.
\<close>

fun set_tags_loop :: "connection \<Rightarrow> int option \<Rightarrow> name_id list \<Rightarrow> (error + unit) \<times> connection" where
  "set_tags_loop c name [] = (Inr (), c)"
| "set_tags_loop c name (Num k # ts) =
     set_tags_loop (execute (insert_tag_files (tags_get_id c (Num k)) name) c) name ts"
| "set_tags_loop c name (Str n # ts) =
     (case tags_get_id c (Str n) of
        Some i \<Rightarrow> set_tags_loop (execute (insert_tag_files (Some i) name) c) name ts
      | None \<Rightarrow>
          (case tags_new c n of
             (Inl e, c') \<Rightarrow> (Inl e, c')
           | (Inr _, c') \<Rightarrow>
               set_tags_loop (execute (insert_tag_files (tags_get_id c' (Str n)) name) c') name ts))"

definition files_set_tags :: "connection \<Rightarrow> name_id \<Rightarrow> name_id list \<Rightarrow> (error + bool) \<times> connection" where
  "files_set_tags c name ts =
     (let i = files_get_id c name;
          c1 = execute (delete_tag_files_file_id i) c
      in case set_tags_loop c1 i ts of
           (Inl e, c') \<Rightarrow> (Inl e, c')
         | (Inr _, c') \<Rightarrow> (Inr True, commit c'))"

subsection \<open>\<^verbatim>\<open>_OptionsCursor\<close>\<close>

definition options_set :: "connection \<Rightarrow> string \<Rightarrow> sql_value \<Rightarrow> (error + unit) \<times> connection" where
  "options_set c name v = (Inr (), commit (execute (replace_options name v) c))"

text \<open>\<^verbatim>\<open>get\<close> returns \<^verbatim>\<open>None\<close> when there is no row, and the stored value otherwise.\<close>

definition options_get :: "connection \<Rightarrow> string \<Rightarrow> sql_value" where
  "options_get c name =
     (case find (\<lambda>r. o_name r = name) (options (db c)) of None \<Rightarrow> Null | Some r \<Rightarrow> o_value r)"

text \<open>
  \<^verbatim>\<open>unset\<close> executes the text \<^verbatim>\<open>REMOVE FROM options WHERE name = ?\<close> and commits.  The
  statement is compiled first; the commit is reached only when \<^verbatim>\<open>execute\<close> returns.
\<close>

definition options_unset :: "connection \<Rightarrow> string \<Rightarrow> (error + unit) \<times> connection" where
  "options_unset c name =
     (case prepare ''REMOVE'' of
        Inl e \<Rightarrow> (Inl e, c)
      | Inr _ \<Rightarrow> (Inr (), commit (execute (from_options_where_name name) c)))"

subsection \<open>\<^verbatim>\<open>_SelectionsCursor\<close>\<close>

definition selections_new :: "connection \<Rightarrow> string \<Rightarrow> string \<Rightarrow> (error + bool) \<times> connection" where
  "selections_new c name v =
     (case insert_selections name v (db c) of
        Inl e \<Rightarrow> (Inl e, c)
      | Inr d \<Rightarrow> (Inr True, commit (c\<lparr>db := d\<rparr>)))"

definition selections_remove :: "connection \<Rightarrow> string \<Rightarrow> (error + bool) \<times> connection" where
  "selections_remove c name = (Inr True, commit (execute (delete_selections name) c))"

text \<open>
  \<^verbatim>\<open>SELECT name FROM selections\<close> is answered from the index of the UNIQUE column, so the
  names come in byte order, not in the order of insertion.
\<close>

definition selections_all_names :: "connection \<Rightarrow> string list" where
  "selections_all_names c = sort (map s_name (selections (db c)))"

definition selections_rename :: "connection \<Rightarrow> string \<Rightarrow> string \<Rightarrow> (error + bool) \<times> connection" where
  "selections_rename c src dst =
     (if src = ALL_NAME \<or> dst = ALL_NAME then (Inr False, c)
      else case update_selections_name dst src (db c) of
             Inl e \<Rightarrow> (Inl e, c)
           | Inr d \<Rightarrow> (Inr True, commit (c\<lparr>db := d\<rparr>)))"

definition selections_resolve :: "connection \<Rightarrow> string \<Rightarrow> string option" where
  "selections_resolve c name = map_option s_value (find (\<lambda>r. s_name r = name) (selections (db c)))"

definition selections_exists :: "connection \<Rightarrow> string \<Rightarrow> bool" where
  "selections_exists c name = (selections_resolve c name \<noteq> None)"






subsection \<open>The command surface\<close>

text \<open>
  The mutating operations, as the commands that \<^verbatim>\<open>__main__.py\<close> looks up by name on a
  handle and calls.  A store is reachable when a sequence of such calls builds it from a
  fresh database file.
\<close>

datatype call =
    TagsNew string
  | TagsRemove name_id
  | TagsRename name_id string
  | FilesNew string string
  | FilesRemove name_id
  | FilesRename name_id string
  | FilesAddTag name_id name_id
  | FilesRemoveTag name_id name_id
  | FilesSetTags name_id "name_id list"
  | OptionsSet string sql_value
  | OptionsUnset string
  | SelectionsNew string string
  | SelectionsRemove string
  | SelectionsRename string string

fun perform :: "call \<Rightarrow> connection \<Rightarrow> connection" where
  "perform (TagsNew n) c = snd (tags_new c n)"
| "perform (TagsRemove r) c = snd (tags_remove c r)"
| "perform (TagsRename r dst) c = snd (tags_rename c r dst)"
| "perform (FilesNew n p) c = snd (files_new c n p)"
| "perform (FilesRemove r) c = snd (files_remove c r)"
| "perform (FilesRename r dst) c = snd (files_rename c r dst)"
| "perform (FilesAddTag r t) c = snd (files_add_tag c r t)"
| "perform (FilesRemoveTag r t) c = snd (files_remove_tag c r t)"
| "perform (FilesSetTags r ts) c = snd (files_set_tags c r ts)"
| "perform (OptionsSet n v) c = snd (options_set c n v)"
| "perform (OptionsUnset n) c = snd (options_unset c n)"
| "perform (SelectionsNew n v) c = snd (selections_new c n v)"
| "perform (SelectionsRemove n) c = snd (selections_remove c n)"
| "perform (SelectionsRename n dst) c = snd (selections_rename c n dst)"

inductive reachable :: "connection \<Rightarrow> bool" where
  start: "reachable connect"
| step: "reachable c \<Longrightarrow> reachable (perform call c)"

subsection \<open>What the schema and the guards keep true of a store\<close>

text \<open>
  The primary keys and the UNIQUE columns hold no value twice, no tag row carries the
  sentinel name, and the ids SQLite hands out for tags are positive.
\<close>

definition valid_db :: "database \<Rightarrow> bool" where
  "valid_db d =
     (distinct (map t_id (tags d)) \<and> distinct (map t_name (tags d)) \<and>
      ALL_NAME \<notin> set (map t_name (tags d)) \<and> list_all (\<lambda>i. 0 < i) (map t_id (tags d)) \<and>
      distinct (map f_id (files d)) \<and> distinct (map o_name (options d)) \<and>
      distinct (map s_name (selections d)))"

text \<open>Every \<^verbatim>\<open>tag_files\<close> row of the file \<open>k\<close> names the id of a tag row.\<close>

definition links_known :: "int \<Rightarrow> database \<Rightarrow> bool" where
  "links_known k d =
     list_all (\<lambda>a. sql_eq (file_id a) (Some k) \<longrightarrow> tag_id a \<in> Some ` t_id ` set (tags d)) (tag_files d)"

text \<open>A tag reference with the name \<open>n\<close> replaced by the id \<open>i\<close>.\<close>

definition by_id :: "string \<Rightarrow> int \<Rightarrow> name_id \<Rightarrow> name_id" where
  "by_id n i t = (if t = Str n then Num i else t)"

subsection \<open>Example stores\<close>

text \<open>One tag, one file that carries it.\<close>

definition photo_db :: database where
  "photo_db =
     \<lparr>tags = [\<lparr>t_id = 1, t_name = ''photo''\<rparr>],
      tag_files = [\<lparr>tag_id = Some 1, file_id = Some 1\<rparr>],
      files = [\<lparr>f_id = 1, f_name = ''a.jpg'', f_path = ''/home/a.jpg''\<rparr>],
      options = [], selections = [\<lparr>s_name = ''photos'', s_value = ''tags.id=1''\<rparr>]\<rparr>"

definition photo_store :: connection where
  "photo_store = \<lparr>db = photo_db, commits = [photo_db]\<rparr>"





section \<open>Properties\<close>

subsection \<open>Auxiliary facts about lists\<close>

lemma find_append_cases:
  "find P (xs @ ys) = (case find P xs of None \<Rightarrow> find P ys | Some x \<Rightarrow> Some x)"
  by (induction xs) auto

lemma find_absent: "x \<notin> set (map f xs) \<Longrightarrow> find (\<lambda>r. f r = x) xs = None"
  by (induction xs) auto

lemma find_filter_other: "find (\<lambda>r. f r = x) (filter (\<lambda>r. f r \<noteq> x) xs) = None"
  by (induction xs) auto

subsection \<open>The sentinel matches every file\<close>

text \<open>
  C7.  In every store, \<^verbatim>\<open>get_by_tag("__ALL__")\<close> returns the names of all rows of \<^verbatim>\<open>files\<close>
  (the result of \<^verbatim>\<open>all_names\<close>, no join is evaluated), and \<^verbatim>\<open>has_tag(f, t)\<close> is true for
  every file reference \<open>f\<close> when \<open>t\<close> is the name \<^verbatim>\<open>"__ALL__"\<close> or the id -1.
\<close>

theorem sentinel_matches_every_file:
  "files_get_by_tag c (Str ALL_NAME) = files_all_names c \<and>
   files_all_names c = map f_name (files (db c)) \<and>
   files_has_tag c f (Str ALL_NAME) \<and> files_has_tag c f (Num (- 1))"
  by (simp add: files_get_by_tag_def files_all_names_def files_has_tag_def)

subsection \<open>References to the sentinel in the mutating operations\<close>

text \<open>
  Given by its name, the sentinel is turned away by every mutating operation of the Tags
  and Files handles: the call returns \<^verbatim>\<open>False\<close> and the connection is untouched.
\<close>

lemma sentinel_name_rejected:
  "tags_new c ALL_NAME = (Inr False, c)"
  "tags_remove c (Str ALL_NAME) = (Inr False, c)"
  "tags_rename c (Str ALL_NAME) dst = (Inr False, c)"
  "tags_rename c src ALL_NAME = (Inr False, c)"
  "files_add_tag c f (Str ALL_NAME) = (Inr False, c)"
  "files_remove_tag c f (Str ALL_NAME) = (Inr False, c)"
  by (simp_all add: tags_new_def tags_remove_def tags_rename_def files_add_tag_def files_remove_tag_def)

text \<open>
  C1.  The claim: for the sentinel given as the name \<^verbatim>\<open>"__ALL__"\<close> or as its id -1,
  \<^verbatim>\<open>Tags.new\<close>, \<^verbatim>\<open>Tags.remove\<close>, \<^verbatim>\<open>Tags.rename\<close>, \<^verbatim>\<open>Files.add_tag\<close> and \<^verbatim>\<open>Files.remove_tag\<close>
  leave the store unchanged and return \<^verbatim>\<open>False\<close>.  The code at the id -1: the guards compare
  with the name only, so \<^verbatim>\<open>add_tag(f, -1)\<close> returns \<^verbatim>\<open>True\<close> and appends the row
  \<open>(-1, id of f)\<close> to \<^verbatim>\<open>tag_files\<close>, and \<^verbatim>\<open>remove_tag(f, -1)\<close>, \<^verbatim>\<open>Tags.remove(-1)\<close> and
  \<^verbatim>\<open>Tags.rename(-1, dst)\<close> return \<^verbatim>\<open>True\<close>.  In the example store the file 1 ends up with a
  stored association to the sentinel.
\<close>

theorem sentinel_id_not_guarded:
  "fst (files_add_tag c f (Num (- 1))) = Inr True \<and>
   tag_files (db (snd (files_add_tag c f (Num (- 1))))) =
     tag_files (db c) @ [\<lparr>tag_id = Some (- 1), file_id = files_get_id c f\<rparr>] \<and>
   fst (files_remove_tag c f (Num (- 1))) = Inr True \<and>
   fst (tags_remove c (Num (- 1))) = Inr True \<and>
   files_add_tag photo_store (Num 1) (Num (- 1)) =
     (Inr True,
      \<lparr>db = photo_db\<lparr>tag_files := [\<lparr>tag_id = Some 1, file_id = Some 1\<rparr>,
                                    \<lparr>tag_id = Some (- 1), file_id = Some 1\<rparr>]\<rparr>,
       commits = [photo_db,
                  photo_db\<lparr>tag_files := [\<lparr>tag_id = Some 1, file_id = Some 1\<rparr>,
                                          \<lparr>tag_id = Some (- 1), file_id = Some 1\<rparr>]\<rparr>]\<rparr>) \<and>
   fst (tags_rename photo_store (Num (- 1)) ''all'') = Inr True"
  by (simp add: files_add_tag_def files_remove_tag_def tags_remove_def tags_rename_def tags_get_id_def
      files_get_id_def Let_def commit_def execute_def insert_tag_files_def update_tags_name_def
      photo_store_def photo_db_def)

subsection \<open>The commits of \<^verbatim>\<open>set_tags\<close>\<close>

lemma tags_get_id_same_tags: "tags (db c') = tags (db c) \<Longrightarrow> tags_get_id c' t = tags_get_id c t"
  by (cases t) (simp_all add: tags_get_id_def)

lemma tags_get_id_insert_tag_files [simp]:
  "tags_get_id (execute (insert_tag_files a b) c) t = tags_get_id c t"
  by (rule tags_get_id_same_tags) (simp add: execute_def insert_tag_files_def)

lemma tags_get_id_delete_tag_files [simp]:
  "tags_get_id (execute (delete_tag_files_file_id a) c) t = tags_get_id c t"
  by (rule tags_get_id_same_tags) (simp add: execute_def delete_tag_files_file_id_def)

text \<open>When every listed tag resolves, the loop commits nothing and creates no tag.\<close>

lemma set_tags_loop_known_tags:
  "list_all (\<lambda>t. tags_get_id c t \<noteq> None) ts \<Longrightarrow>
   fst (set_tags_loop c k ts) = Inr () \<and> commits (snd (set_tags_loop c k ts)) = commits c \<and>
   tags (db (snd (set_tags_loop c k ts))) = tags (db c)"
proof (induction c k ts rule: set_tags_loop.induct)
  case (1 c name)
  then show ?case by simp
next
  case (2 c name k ts)
  have "list_all (\<lambda>t. tags_get_id (execute (insert_tag_files (tags_get_id c (Num k)) name) c) t \<noteq> None) ts"
    using 2(2) by simp
  from 2(1)[OF this] show ?case by (simp add: execute_def insert_tag_files_def)
next
  case (3 c name n ts)
  from 3(3) obtain i where i: "tags_get_id c (Str n) = Some i" by auto
  have "list_all (\<lambda>t. tags_get_id (execute (insert_tag_files (Some i) name) c) t \<noteq> None) ts"
    using 3(3) by simp
  from 3(2)[OF i this] i show ?case by (simp add: execute_def insert_tag_files_def)
qed

text \<open>So \<^verbatim>\<open>set_tags\<close> with known tags only commits once, at its end.\<close>

lemma set_tags_known_tags_one_commit:
  assumes "list_all (\<lambda>t. tags_get_id c t \<noteq> None) ts"
  shows "fst (files_set_tags c f ts) = Inr True \<and>
         commits (snd (files_set_tags c f ts)) = commits c @ [db (snd (files_set_tags c f ts))]"
proof -
  let ?c1 = "execute (delete_tag_files_file_id (files_get_id c f)) c"
  have "list_all (\<lambda>t. tags_get_id ?c1 t \<noteq> None) ts"
    using assms by simp
  from set_tags_loop_known_tags[OF this, of "files_get_id c f"]
  show ?thesis
    by (cases "set_tags_loop ?c1 (files_get_id c f) ts")
       (auto simp: files_set_tags_def Let_def commit_def execute_def)
qed

text \<open>
  C2.  The claim: \<^verbatim>\<open>set_tags\<close> executes exactly one commit, after the whole
  delete-then-insert sequence, also when a listed tag is auto-created.  The code in the
  example store, for the file \<^verbatim>\<open>a.jpg\<close> (tagged \<^verbatim>\<open>photo\<close>) and the list \<^verbatim>\<open>["video"]\<close> with
  \<^verbatim>\<open>video\<close> not yet a tag: the loop calls \<^verbatim>\<open>Tags.new\<close>, which commits, so two states are
  committed, and the first of them has the file's old association deleted and the new one
  not yet inserted.
\<close>

theorem set_tags_commits_midway:
  "files_set_tags photo_store (Str ''a.jpg'') [Str ''video''] =
     (Inr True,
      \<lparr>db = photo_db\<lparr>tags := [\<lparr>t_id = 1, t_name = ''photo''\<rparr>, \<lparr>t_id = 2, t_name = ''video''\<rparr>],
                      tag_files := [\<lparr>tag_id = Some 2, file_id = Some 1\<rparr>]\<rparr>,
       commits =
         [photo_db,
          photo_db\<lparr>tags := [\<lparr>t_id = 1, t_name = ''photo''\<rparr>, \<lparr>t_id = 2, t_name = ''video''\<rparr>],
                   tag_files := []\<rparr>,
          photo_db\<lparr>tags := [\<lparr>t_id = 1, t_name = ''photo''\<rparr>, \<lparr>t_id = 2, t_name = ''video''\<rparr>],
                   tag_files := [\<lparr>tag_id = Some 2, file_id = Some 1\<rparr>]\<rparr>]\<rparr>)"
  by (simp add: files_set_tags_def files_get_id_def tags_get_id_def tags_new_def insert_tags_def
      next_rowid_def Let_def commit_def execute_def insert_tag_files_def delete_tag_files_file_id_def
      sql_eq_def photo_store_def photo_db_def)

subsection \<open>\<^verbatim>\<open>Options.unset\<close>\<close>

text \<open>
  C3.  The claim: \<^verbatim>\<open>unset(name)\<close> removes the option row without raising, so that \<^verbatim>\<open>get\<close>
  after \<^verbatim>\<open>set\<close> and \<^verbatim>\<open>unset\<close> returns null.  The code: the statement text starts with
  \<^verbatim>\<open>REMOVE\<close>, which is no SQL statement, so \<^verbatim>\<open>unset\<close> raises \<^verbatim>\<open>OperationalError\<close> for every
  name, changes nothing, and \<^verbatim>\<open>get\<close> after \<^verbatim>\<open>set\<close> and \<^verbatim>\<open>unset\<close> still returns the value set.
\<close>

theorem unset_raises:
  "options_unset c name = (Inl OperationalError, c) \<and>
   options_get (snd (options_unset (snd (options_set c name v)) name)) name = v"
  by (simp add: options_unset_def prepare_def sql_verbs_def options_set_def options_get_def
      commit_def execute_def replace_options_def find_append_cases find_filter_other)

subsection \<open>Cascading delete\<close>

text \<open>
  C6.  After a \<^verbatim>\<open>Tags.remove\<close> (a \<^verbatim>\<open>Files.remove\<close>) that returned \<^verbatim>\<open>True\<close> and resolved its
  argument to the id \<open>i\<close>, no row of \<^verbatim>\<open>tag_files\<close> has \<open>i\<close> as its \<^verbatim>\<open>tag_id\<close> (its \<^verbatim>\<open>file_id\<close>),
  no row of \<^verbatim>\<open>tags\<close> (of \<^verbatim>\<open>files\<close>) has the id \<open>i\<close>, and the one commit of the call made exactly
  that state durable.
\<close>

theorem cascading_delete:
  "(tags_remove c r = (Inr True, c') \<and> tags_get_id c r = Some i \<longrightarrow>
      list_all (\<lambda>a. tag_id a \<noteq> Some i) (tag_files (db c')) \<and>
      list_all (\<lambda>t. t_id t \<noteq> i) (tags (db c')) \<and>
      commits c' = commits c @ [db c']) \<and>
   (files_remove c r = (Inr True, c') \<and> files_get_id c r = Some i \<longrightarrow>
      list_all (\<lambda>a. file_id a \<noteq> Some i) (tag_files (db c')) \<and>
      list_all (\<lambda>f. f_id f \<noteq> i) (files (db c')) \<and>
      commits c' = commits c @ [db c'])"
  by (auto simp: tags_remove_def files_remove_def Let_def commit_def execute_def
      delete_tag_files_tag_id_def delete_tags_id_def delete_tag_files_file_id_def delete_files_id_def
      list_all_iff sql_eq_def split: if_splits option.splits)

theorem cascading_delete_witness:
  "tags_remove photo_store (Str ''photo'') = (Inr True, snd (tags_remove photo_store (Str ''photo''))) \<and>
   tags_get_id photo_store (Str ''photo'') = Some 1 \<and>
   tag_files (db (snd (tags_remove photo_store (Str ''photo'')))) = [] \<and>
   list_all (\<lambda>a. tag_id a \<noteq> Some 1) (tag_files (db (snd (tags_remove photo_store (Str ''photo''))))) \<and>
   files_remove photo_store (Num 1) = (Inr True, snd (files_remove photo_store (Num 1))) \<and>
   files_get_id photo_store (Num 1) = Some 1 \<and>
   list_all (\<lambda>a. file_id a \<noteq> Some 1) (tag_files (db (snd (files_remove photo_store (Num 1)))))"
  using cascading_delete [of photo_store "Str ''photo''" "snd (tags_remove photo_store (Str ''photo''))" 1]
    cascading_delete [of photo_store "Num 1" "snd (files_remove photo_store (Num 1))" 1]
  by (simp add: tags_remove_def files_remove_def tags_get_id_def files_get_id_def photo_store_def photo_db_def
      Let_def commit_def execute_def delete_tag_files_tag_id_def delete_tags_id_def
      delete_tag_files_file_id_def delete_files_id_def sql_eq_def)

subsection \<open>Name uniqueness on creation\<close>

text \<open>
  C8.  In a valid store, \<^verbatim>\<open>Tags.new\<close> with a name that a tag row already has, and
  \<^verbatim>\<open>Selections.new\<close> with a name that a selection row already has, raise the storage
  engine's \<^verbatim>\<open>IntegrityError\<close> (they do not return \<^verbatim>\<open>False\<close>), and the connection is as it
  was: no row is inserted and nothing is committed.
\<close>

theorem duplicate_name_raises:
  assumes "valid_db (db c)"
  shows "(name \<in> set (tags_all_names c) \<longrightarrow> tags_new c name = (Inl IntegrityError, c)) \<and>
         (name \<in> set (selections_all_names c) \<longrightarrow> selections_new c name v = (Inl IntegrityError, c))"
  using assms
  by (auto simp: valid_db_def tags_new_def insert_tags_def tags_all_names_def selections_all_names_def
      selections_new_def insert_selections_def)

theorem duplicate_name_raises_witness:
  "valid_db (db photo_store) \<and> ''photo'' \<in> set (tags_all_names photo_store) \<and>
   tags_new photo_store ''photo'' = (Inl IntegrityError, photo_store) \<and>
   ''photos'' \<in> set (selections_all_names photo_store) \<and>
   selections_new photo_store ''photos'' ''tags.id=2'' = (Inl IntegrityError, photo_store)"
  using duplicate_name_raises [of photo_store "''photo''" "''tags.id=2''"]
    duplicate_name_raises [of photo_store "''photos''" "''tags.id=2''"]
  by (simp add: valid_db_def photo_store_def photo_db_def tags_all_names_def selections_all_names_def)

subsection \<open>Selection round trip\<close>

text \<open>
  C9.  For a selection name \<open>sel\<close> that no selection row has and any predicate text \<open>v\<close>,
  \<^verbatim>\<open>Selections.new(sel, v)\<close> returns \<^verbatim>\<open>True\<close> and \<^verbatim>\<open>Selections.resolve(sel)\<close> then returns
  exactly \<open>v\<close>.
\<close>

theorem selection_round_trip:
  assumes "sel \<notin> set (selections_all_names c)"
  shows "fst (selections_new c sel v) = Inr True \<and>
         selections_resolve (snd (selections_new c sel v)) sel = Some v"
  using assms
  by (simp add: selections_new_def insert_selections_def selections_all_names_def
      selections_resolve_def commit_def find_append_cases find_absent)

theorem selection_round_trip_witness:
  "''videos'' \<notin> set (selections_all_names photo_store) \<and>
   fst (selections_new photo_store ''videos'' ''tags.id=2'') = Inr True \<and>
   selections_resolve (snd (selections_new photo_store ''videos'' ''tags.id=2'')) ''videos'' = Some ''tags.id=2''"
  using selection_round_trip [of "''videos''" photo_store "''tags.id=2''"]
  by (simp add: selections_all_names_def photo_store_def photo_db_def)

subsection \<open>\<^verbatim>\<open>add_tag\<close> with names that do not resolve\<close>

text \<open>
  C10.  When the file name and the tag name both resolve to nothing (and the tag name is
  not the sentinel's), \<^verbatim>\<open>Files.add_tag\<close> returns \<^verbatim>\<open>True\<close>, appends the row \<open>(NULL, NULL)\<close> to
  \<^verbatim>\<open>tag_files\<close> and commits it; no error is signalled, and each further call appends one
  more such row.
\<close>

theorem add_tag_unresolved_names:
  assumes "\<not> files_exists c (Str fn)" and "\<not> tags_exists c (Str tn)" and "tn \<noteq> ALL_NAME"
  shows "fst (files_add_tag c (Str fn) (Str tn)) = Inr True \<and>
         tag_files (db (snd (files_add_tag c (Str fn) (Str tn)))) =
           tag_files (db c) @ [\<lparr>tag_id = None, file_id = None\<rparr>] \<and>
         commits (snd (files_add_tag c (Str fn) (Str tn))) =
           commits c @ [db (snd (files_add_tag c (Str fn) (Str tn)))]"
  using assms
  by (simp add: files_add_tag_def files_exists_def tags_exists_def commit_def execute_def insert_tag_files_def)

theorem add_tag_unresolved_names_witness:
  "\<not> files_exists photo_store (Str ''b.jpg'') \<and> \<not> tags_exists photo_store (Str ''video'') \<and>
   fst (files_add_tag photo_store (Str ''b.jpg'') (Str ''video'')) = Inr True \<and>
   tag_files (db (snd (files_add_tag photo_store (Str ''b.jpg'') (Str ''video'')))) =
     [\<lparr>tag_id = Some 1, file_id = Some 1\<rparr>, \<lparr>tag_id = None, file_id = None\<rparr>]"
  using add_tag_unresolved_names [of photo_store "''b.jpg''" "''video''"]
  by (simp add: files_exists_def tags_exists_def files_get_id_def tags_get_id_def photo_store_def photo_db_def)

subsection \<open>\<^verbatim>\<open>set_tags\<close> is a full replace\<close>

text \<open>Fresh row ids.\<close>

lemma fold_max_init: "(x::int) \<le> fold max xs x"
proof (induction xs arbitrary: x)
  case Nil
  show ?case by simp
next
  case (Cons a xs)
  have "x \<le> max a x" by simp
  also have "max a x \<le> fold max xs (max a x)" by (rule Cons.IH)
  finally show ?case by simp
qed

lemma fold_max_mem: "(y::int) \<in> set xs \<Longrightarrow> y \<le> fold max xs x"
proof (induction xs arbitrary: x)
  case Nil
  then show ?case by simp
next
  case (Cons a xs)
  show ?case
  proof (cases "y = a")
    case True
    have "y \<le> max a x" using True by simp
    also have "max a x \<le> fold max xs (max a x)" by (rule fold_max_init)
    finally show ?thesis by simp
  next
    case False
    with Cons.prems have "y \<in> set xs" by simp
    then show ?thesis using Cons.IH[of "max a x"] by simp
  qed
qed

lemma fold_max_ge: "(y::int) \<in> set (x # xs) \<Longrightarrow> y \<le> fold max xs x"
  using fold_max_init[of x xs] fold_max_mem[of y xs x] by auto

lemma next_rowid_fresh: "next_rowid ids \<notin> set ids"
proof
  assume a: "next_rowid ids \<in> set ids"
  then obtain x xs where ids: "ids = x # xs" by (cases ids) auto
  with a fold_max_ge[of "next_rowid ids" x xs] show False
    by (simp add: next_rowid_def)
qed

lemma next_rowid_positive: "list_all (\<lambda>i. 0 < i) ids \<Longrightarrow> 0 < next_rowid ids"
proof (cases ids)
  case Nil
  then show ?thesis by (simp add: next_rowid_def)
next
  case (Cons x xs)
  assume "list_all (\<lambda>i. 0 < i) ids"
  with Cons have "0 < x" by simp
  moreover have "x \<le> fold max xs x" using fold_max_ge[of x x xs] by simp
  ultimately show ?thesis using Cons by (simp add: next_rowid_def)
qed

lemma not_in_imageD: "x \<notin> f ` S \<Longrightarrow> y \<in> S \<Longrightarrow> f y \<noteq> x"
  by blast

lemma filter_key_unique:
  "distinct (map f xs) \<Longrightarrow> x \<in> set xs \<Longrightarrow> filter (\<lambda>y. f y = f x) xs = [x]"
proof (induction xs)
  case Nil
  then show ?case by simp
next
  case (Cons a xs)
  show ?case
  proof (cases "a = x")
    case True
    with Cons.prems have "f x \<notin> f ` set xs" by simp
    then have "\<forall>y\<in>set xs. f y \<noteq> f x" by (blast dest: not_in_imageD)
    then have "filter (\<lambda>y. f y = f x) xs = []" by (simp add: filter_empty_conv)
    with True show ?thesis by simp
  next
    case False
    with Cons.prems have "x \<in> set xs" "f a \<noteq> f x" by auto
    with Cons show ?thesis by simp
  qed
qed

lemma find_SomeD: "find P xs = Some x \<Longrightarrow> x \<in> set xs \<and> P x"
  by (induction xs) (auto split: if_splits)

lemma sql_eq_Some [simp]: "sql_eq (Some a) (Some b) = (a = b)"
  by (simp add: sql_eq_def)

lemma sql_eq_None [simp]: "sql_eq None b = False" "sql_eq a None = False"
  by (simp_all add: sql_eq_def split: option.splits)

lemma valid_db_insert_tags:
  assumes "valid_db d" and "n \<notin> set (map t_name (tags d))" and "n \<noteq> ALL_NAME"
  shows "valid_db (d\<lparr>tags := tags d @ [\<lparr>t_id = next_rowid (map t_id (tags d)), t_name = n\<rparr>]\<rparr>)"
  using assms next_rowid_fresh[of "map t_id (tags d)"] next_rowid_positive[of "map t_id (tags d)"]
  by (simp add: valid_db_def)


lemma select_tags_name_insert:
  "select_tags_name_file_id (Some k) (d\<lparr>tag_files := tag_files d @ [\<lparr>tag_id = t, file_id = Some k\<rparr>]\<rparr>) =
   select_tags_name_file_id (Some k) d @ map t_name (filter (\<lambda>r. sql_eq t (Some (t_id r))) (tags d))"
  by (simp add: select_tags_name_file_id_def)

lemma select_tags_name_cong:
  assumes "tag_files d' = tag_files d"
    and "\<And>a. a \<in> set (tag_files d) \<Longrightarrow> sql_eq (file_id a) k \<Longrightarrow>
           filter (\<lambda>t. sql_eq (tag_id a) (Some (t_id t))) (tags d') =
           filter (\<lambda>t. sql_eq (tag_id a) (Some (t_id t))) (tags d)"
  shows "select_tags_name_file_id k d' = select_tags_name_file_id k d"
proof -
  have "map (\<lambda>a. map t_name (filter (\<lambda>t. sql_eq (tag_id a) (Some (t_id t))) (tags d')))
          (filter (\<lambda>a. sql_eq (file_id a) k) (tag_files d)) =
        map (\<lambda>a. map t_name (filter (\<lambda>t. sql_eq (tag_id a) (Some (t_id t))) (tags d)))
          (filter (\<lambda>a. sql_eq (file_id a) k) (tag_files d))"
    by (rule map_cong[OF refl]) (simp add: assms(2))
  then show ?thesis
    unfolding select_tags_name_file_id_def assms(1) by (rule arg_cong[of _ _ concat])
qed

text \<open>
  One round of the loop for a name other than the sentinel's: the tag is found or created,
  and the file's tag list grows by exactly that name.
\<close>

lemma set_tags_step:
  assumes v: "valid_db (db c)" and n: "n \<noteq> ALL_NAME" and nd: "links_known k (db c)"
  shows "\<exists>c1. set_tags_loop c (Some k) (Str n # ts) = set_tags_loop c1 (Some k) ts \<and>
          valid_db (db c1) \<and> links_known k (db c1) \<and> files (db c1) = files (db c) \<and>
          select_tags_name_file_id (Some k) (db c1) = select_tags_name_file_id (Some k) (db c) @ [n] \<and>
          t_name ` set (tags (db c1)) = insert n (t_name ` set (tags (db c)))"
proof (cases "find (\<lambda>r. t_name r = n) (tags (db c))")
  case (Some r)
  then have r: "r \<in> set (tags (db c))" "t_name r = n" using find_SomeD[OF Some] by auto
  let ?c1 = "execute (insert_tag_files (Some (t_id r)) (Some k)) c"
  have gid: "tags_get_id c (Str n) = Some (t_id r)" using Some n by (simp add: tags_get_id_def)
  have 1: "set_tags_loop c (Some k) (Str n # ts) = set_tags_loop ?c1 (Some k) ts"
    using gid by simp
  have 2: "valid_db (db ?c1)" using v by (simp add: valid_db_def execute_def insert_tag_files_def)
  have 3: "links_known k (db ?c1)" using nd r by (simp add: links_known_def execute_def insert_tag_files_def)
  have "filter (\<lambda>t. t_id t = t_id r) (tags (db c)) = [r]"
    using v r filter_key_unique[of t_id "tags (db c)" r] by (simp add: valid_db_def)
  then have "filter (\<lambda>t. t_id r = t_id t) (tags (db c)) = [r]"
    by (simp add: eq_commute)
  then have 4: "select_tags_name_file_id (Some k) (db ?c1) = select_tags_name_file_id (Some k) (db c) @ [n]"
    using r by (simp add: select_tags_name_file_id_def execute_def insert_tag_files_def)
  have 5: "t_name ` set (tags (db ?c1)) = insert n (t_name ` set (tags (db c)))"
    using r by (auto simp: execute_def insert_tag_files_def)
  show ?thesis using 1 2 3 4 5 by (intro exI[of _ ?c1]) (simp add: execute_def insert_tag_files_def)
next
  case None
  then have absent: "n \<notin> set (map t_name (tags (db c)))"
    by (auto simp: find_None_iff)
  let ?i = "next_rowid (map t_id (tags (db c)))"
  let ?row = "\<lparr>t_id = ?i, t_name = n\<rparr>"
  let ?d' = "(db c)\<lparr>tags := tags (db c) @ [?row]\<rparr>"
  let ?c' = "commit (c\<lparr>db := ?d'\<rparr>)"
  let ?c1 = "execute (insert_tag_files (Some ?i) (Some k)) ?c'"
  have new: "tags_new c n = (Inr True, ?c')"
    using absent n by (simp add: tags_new_def insert_tags_def)
  have gid0: "tags_get_id c (Str n) = None" using None n by (simp add: tags_get_id_def)
  have gid1: "tags_get_id ?c' (Str n) = Some ?i"
    using None n by (simp add: tags_get_id_def commit_def find_append_cases)
  have 1: "set_tags_loop c (Some k) (Str n # ts) = set_tags_loop ?c1 (Some k) ts"
    using gid0 gid1 new by simp
  have vd': "valid_db ?d'" using valid_db_insert_tags[OF v absent n] .
  have 2: "valid_db (db ?c1)" using vd' by (simp add: valid_db_def execute_def insert_tag_files_def commit_def)
  have 3: "links_known k (db ?c1)" using nd
    by (auto simp: links_known_def execute_def insert_tag_files_def commit_def list_all_iff)
  have fresh: "?i \<notin> t_id ` set (tags (db c))" using next_rowid_fresh[of "map t_id (tags (db c))"] by simp
  have old: "select_tags_name_file_id (Some k) ?d' = select_tags_name_file_id (Some k) (db c)"
  proof (rule select_tags_name_cong)
    show "tag_files ?d' = tag_files (db c)" by simp
  next
    fix a assume "a \<in> set (tag_files (db c))" "sql_eq (file_id a) (Some k)"
    then have "tag_id a \<in> Some ` t_id ` set (tags (db c))"
      using nd by (auto simp: links_known_def list_all_iff)
    then obtain t where "t \<in> set (tags (db c))" "tag_id a = Some (t_id t)" by auto
    then have "\<not> sql_eq (tag_id a) (Some ?i)" using not_in_imageD[OF fresh, of t] by simp
    then show "filter (\<lambda>t. sql_eq (tag_id a) (Some (t_id t))) (tags ?d') =
       filter (\<lambda>t. sql_eq (tag_id a) (Some (t_id t))) (tags (db c))" by simp
  qed
  have none: "filter (\<lambda>t. ?i = t_id t) (tags (db c)) = []"
    using fresh by (auto simp: filter_empty_conv)
  have "db ?c1 = ?d'\<lparr>tag_files := tag_files ?d' @ [\<lparr>tag_id = Some ?i, file_id = Some k\<rparr>]\<rparr>"
    by (simp add: execute_def insert_tag_files_def commit_def)
  then have "select_tags_name_file_id (Some k) (db ?c1) =
      select_tags_name_file_id (Some k) ?d' @ map t_name (filter (\<lambda>r. sql_eq (Some ?i) (Some (t_id r))) (tags ?d'))"
    by (simp only: select_tags_name_insert)
  then have 4: "select_tags_name_file_id (Some k) (db ?c1) = select_tags_name_file_id (Some k) (db c) @ [n]"
    using old none by simp
  have 5: "t_name ` set (tags (db ?c1)) = insert n (t_name ` set (tags (db c)))"
    by (auto simp: execute_def insert_tag_files_def commit_def)
  show ?thesis using 1 2 3 4 5 by (intro exI[of _ ?c1]) (simp add: execute_def insert_tag_files_def commit_def)
qed


lemma set_tags_loop_names:
  assumes "valid_db (db c)" and "ALL_NAME \<notin> set ns" and "links_known k (db c)"
  shows "\<exists>c'. set_tags_loop c (Some k) (map Str ns) = (Inr (), c') \<and>
          valid_db (db c') \<and> files (db c') = files (db c) \<and>
          select_tags_name_file_id (Some k) (db c') = select_tags_name_file_id (Some k) (db c) @ ns \<and>
          t_name ` set (tags (db c')) = t_name ` set (tags (db c)) \<union> set ns"
  using assms
proof (induction ns arbitrary: c)
  case Nil
  then show ?case by simp
next
  case (Cons n ns)
  from Cons.prems have n: "n \<noteq> ALL_NAME" and ns: "ALL_NAME \<notin> set ns" by auto
  from set_tags_step[OF Cons.prems(1) n Cons.prems(3), of "map Str ns"]
  obtain c1 where c1: "set_tags_loop c (Some k) (Str n # map Str ns) = set_tags_loop c1 (Some k) (map Str ns)"
    "valid_db (db c1)" "links_known k (db c1)" "files (db c1) = files (db c)"
    "select_tags_name_file_id (Some k) (db c1) = select_tags_name_file_id (Some k) (db c) @ [n]"
    "t_name ` set (tags (db c1)) = insert n (t_name ` set (tags (db c)))"
    by blast
  from Cons.IH[OF c1(2) ns c1(3)]
  obtain c' where c': "set_tags_loop c1 (Some k) (map Str ns) = (Inr (), c')"
    "valid_db (db c')" "files (db c') = files (db c1)"
    "select_tags_name_file_id (Some k) (db c') = select_tags_name_file_id (Some k) (db c1) @ ns"
    "t_name ` set (tags (db c')) = t_name ` set (tags (db c1)) \<union> set ns"
    by blast
  have "set_tags_loop c (Some k) (map Str (n # ns)) = (Inr (), c')"
    using c1(1) c'(1) by simp
  moreover have "select_tags_name_file_id (Some k) (db c') = select_tags_name_file_id (Some k) (db c) @ n # ns"
    using c1(5) c'(4) by simp
  moreover have "t_name ` set (tags (db c')) = t_name ` set (tags (db c)) \<union> set (n # ns)"
    using c1(6) c'(5) by auto
  ultimately show ?case using c'(2) c'(3) c1(4) by (intro exI[of _ c']) simp
qed

lemma files_get_id_same_files: "files (db c') = files (db c) \<Longrightarrow> files_get_id c' f = files_get_id c f"
  by (cases f) (simp_all add: files_get_id_def)

lemma set_tags_names:
  assumes v: "valid_db (db c)" and f: "files_exists c f" and ts: "ALL_NAME \<notin> set ts"
  shows "\<exists>c'. files_set_tags c f (map Str ts) = (Inr True, c') \<and>
          valid_db (db c') \<and> files (db c') = files (db c) \<and>
          files_get_tags c' f = ts \<and> set ts \<subseteq> t_name ` set (tags (db c'))"
proof -
  from f obtain k where k: "files_get_id c f = Some k" by (auto simp: files_exists_def)
  let ?c1 = "execute (delete_tag_files_file_id (Some k)) c"
  have v1: "valid_db (db ?c1)" using v by (simp add: valid_db_def execute_def delete_tag_files_file_id_def)
  have t1: "links_known k (db ?c1)"
    by (simp add: links_known_def execute_def delete_tag_files_file_id_def list_all_iff)
  have s1: "select_tags_name_file_id (Some k) (db ?c1) = []"
    by (simp add: select_tags_name_file_id_def execute_def delete_tag_files_file_id_def)
  from set_tags_loop_names[OF v1 ts t1]
  obtain c' where c': "set_tags_loop ?c1 (Some k) (map Str ts) = (Inr (), c')"
    "valid_db (db c')" "files (db c') = files (db ?c1)"
    "select_tags_name_file_id (Some k) (db c') = select_tags_name_file_id (Some k) (db ?c1) @ ts"
    "t_name ` set (tags (db c')) = t_name ` set (tags (db ?c1)) \<union> set ts"
    by blast
  have fs: "files (db (commit c')) = files (db c)"
    using c'(3) by (simp add: commit_def execute_def delete_tag_files_file_id_def)
  have 1: "files_set_tags c f (map Str ts) = (Inr True, commit c')"
    using k c'(1) by (simp add: files_set_tags_def)
  have 2: "valid_db (db (commit c'))" using c'(2) by (simp add: commit_def)
  have "files_get_id (commit c') f = Some k" using files_get_id_same_files[OF fs, of f] k by simp
  then have 3: "files_get_tags (commit c') f = ts"
    using c'(4) s1 by (simp add: files_get_tags_def commit_def)
  have 4: "set ts \<subseteq> t_name ` set (tags (db (commit c')))"
    using c'(5) by (simp add: commit_def)
  show ?thesis using 1 2 3 4 fs by blast
qed

lemma count_unique_name:
  assumes "distinct (map t_name rows)" and "n \<in> t_name ` set rows"
  shows "length (filter (\<lambda>r. t_name r = n) rows) = 1"
proof -
  from assms(2) obtain r where r: "r \<in> set rows" "t_name r = n" by auto
  from filter_key_unique[OF assms(1) r(1)] r(2) show ?thesis by simp
qed

text \<open>
  C5, as amended.  In a valid store, for a file reference \<open>f\<close> that resolves and a list \<open>ts\<close>
  of tag names none of which is \<^verbatim>\<open>"__ALL__"\<close>: \<^verbatim>\<open>set_tags(f, ts)\<close> returns \<^verbatim>\<open>True\<close>; afterwards
  the names that \<^verbatim>\<open>get_tags(f)\<close> reports are exactly those of \<open>ts\<close>, whatever the file was tagged
  with before; every listed name is the name of exactly one tag row (a missing tag is
  created once); a second \<^verbatim>\<open>set_tags(f, ts)\<close> gives the same tag set; and the empty list
  leaves the file with no tag.
\<close>

theorem set_tags_full_replace:
  assumes "valid_db (db c)" and "files_exists c f" and "ALL_NAME \<notin> set ts"
  shows "fst (files_set_tags c f (map Str ts)) = Inr True \<and>
         set (files_get_tags (snd (files_set_tags c f (map Str ts))) f) = set ts \<and>
         list_all (\<lambda>n. length (filter (\<lambda>r. t_name r = n)
                     (tags (db (snd (files_set_tags c f (map Str ts)))))) = 1) ts \<and>
         set (files_get_tags (snd (files_set_tags (snd (files_set_tags c f (map Str ts))) f (map Str ts))) f) = set ts \<and>
         files_get_tags (snd (files_set_tags c f [])) f = []"
proof -
  from set_tags_names[OF assms]
  obtain c' where c': "files_set_tags c f (map Str ts) = (Inr True, c')" "valid_db (db c')"
    "files (db c') = files (db c)" "files_get_tags c' f = ts" "set ts \<subseteq> t_name ` set (tags (db c'))"
    by blast
  have ex': "files_exists c' f"
    using assms(2) files_get_id_same_files[OF c'(3), of f] by (simp add: files_exists_def)
  from set_tags_names[OF c'(2) ex' assms(3)]
  obtain c'' where c'': "files_set_tags c' f (map Str ts) = (Inr True, c'')" "files_get_tags c'' f = ts"
    by blast
  from set_tags_names[OF assms(1,2), of "[]"]
  obtain c0 where c0: "files_set_tags c f [] = (Inr True, c0)" "files_get_tags c0 f = []"
    by auto
  have once: "list_all (\<lambda>n. length (filter (\<lambda>r. t_name r = n) (tags (db c'))) = 1) ts"
  proof -
    have d: "distinct (map t_name (tags (db c')))" using c'(2) by (simp add: valid_db_def)
    have "\<And>n. n \<in> set ts \<Longrightarrow> length (filter (\<lambda>r. t_name r = n) (tags (db c'))) = 1"
      using c'(5) by (intro count_unique_name[OF d]) blast
    then show ?thesis by (simp add: list_all_iff)
  qed
  show ?thesis using c'(1,4) c''(1,2) c0 once by simp
qed

theorem set_tags_full_replace_witness:
  "valid_db (db photo_store) \<and> files_exists photo_store (Str ''a.jpg'') \<and>
   fst (files_set_tags photo_store (Str ''a.jpg'') [Str ''video'', Str ''photo'', Str ''video'']) = Inr True \<and>
   set (files_get_tags (snd (files_set_tags photo_store (Str ''a.jpg'') [Str ''video'', Str ''photo'', Str ''video''])) (Str ''a.jpg''))
     = {''video'', ''photo''} \<and>
   length (filter (\<lambda>r. t_name r = ''video'')
     (tags (db (snd (files_set_tags photo_store (Str ''a.jpg'') [Str ''video'', Str ''photo'', Str ''video'']))))) = 1"
  using set_tags_full_replace [of photo_store "Str ''a.jpg''" "[''video'', ''photo'', ''video'']"]
  by (simp add: valid_db_def files_exists_def files_get_id_def photo_store_def photo_db_def insert_commute)

text \<open>
  The claim as stated fails for the name \<^verbatim>\<open>"__ALL__"\<close>: \<^verbatim>\<open>set_tags(1, ["__ALL__"])\<close> stores the
  row \<open>(-1, 1)\<close>, which joins with no tag row, and \<^verbatim>\<open>get_tags(1)\<close> is empty.
\<close>

theorem set_tags_sentinel_counterexample:
  "fst (files_set_tags photo_store (Num 1) [Str ALL_NAME]) = Inr True \<and>
   files_get_tags (snd (files_set_tags photo_store (Num 1) [Str ALL_NAME])) (Num 1) = [] \<and>
   set (files_get_tags (snd (files_set_tags photo_store (Num 1) [Str ALL_NAME])) (Num 1)) \<noteq> set [ALL_NAME]"
  by (simp add: files_set_tags_def files_get_tags_def files_get_id_def tags_get_id_def
      select_tags_name_file_id_def Let_def commit_def execute_def insert_tag_files_def
      delete_tag_files_file_id_def sql_eq_def photo_store_def photo_db_def)

subsection \<open>References by name and by id\<close>

lemma valid_db_tags_new: "valid_db (db c) \<Longrightarrow> valid_db (db (snd (tags_new c n)))"
  using valid_db_insert_tags[of "db c" n]
  by (simp add: tags_new_def insert_tags_def commit_def)


lemma valid_db_only_tag_files: 
  "tags d' = tags d \<Longrightarrow> files d' = files d \<Longrightarrow> options d' = options d \<Longrightarrow> selections d' = selections d \<Longrightarrow>
   valid_db d' = valid_db d"
  by (simp add: valid_db_def)

lemma valid_db_insert_tag_files [simp]: "valid_db (db (execute (insert_tag_files a b) c)) = valid_db (db c)"
  by (rule valid_db_only_tag_files) (simp_all add: execute_def insert_tag_files_def)

lemma tags_insert_tag_files [simp]: "tags (db (execute (insert_tag_files a b) c)) = tags (db c)"
  by (simp add: execute_def insert_tag_files_def)







lemma by_id_simps [simp]:
  "by_id n i (Num j) = Num j"
  "by_id n i (Str m) = (if m = n then Num i else Str m)"
  by (simp_all add: by_id_def)













subsection \<open>Every operation keeps a store valid\<close>

lemma valid_db_INIT: "valid_db (db connect)"
  by (simp add: connect_def INIT_def valid_db_def)

lemma update_keeps_ids: "map t_id (map (\<lambda>r. if P r then r\<lparr>t_name := dst\<rparr> else r) xs) = map t_id xs"
  by (induction xs) auto

lemma update_files_keeps_ids: "map f_id (map (\<lambda>r. if P r then r\<lparr>f_name := dst\<rparr> else r) xs) = map f_id xs"
  by (induction xs) auto

lemma update_names_subset:
  "set (map t_name (map (\<lambda>r. if P r then r\<lparr>t_name := dst\<rparr> else r) xs)) \<subseteq> insert dst (set (map t_name xs))"
  by (induction xs) auto

lemma valid_db_update_tags_name:
  assumes "valid_db d" and "dst \<noteq> ALL_NAME" and "update_tags_name P dst d = Inr d'"
  shows "valid_db d'"
proof -
  let ?rows = "map (\<lambda>r. if P r then r\<lparr>t_name := dst\<rparr> else r) (tags d)"
  from assms(3) have d': "d' = d\<lparr>tags := ?rows\<rparr>" and dn: "distinct (map t_name ?rows)"
    by (auto simp: update_tags_name_def Let_def split: if_splits)
  have "ALL_NAME \<notin> set (map t_name ?rows)"
    using update_names_subset[of P dst "tags d"] assms(1,2) by (auto simp: valid_db_def)
  then show ?thesis using assms(1) dn unfolding d' valid_db_def
    by (simp add: update_keeps_ids del: map_map)
qed

lemma valid_db_set_tags_loop:
  "valid_db (db c) \<Longrightarrow> valid_db (db (snd (set_tags_loop c k ts)))"
proof (induction c k ts rule: set_tags_loop.induct)
  case (1 c name)
  then show ?case by simp
next
  case (2 c name j ts)
  then show ?case by simp
next
  case (3 c name n ts)
  show ?case
  proof (cases "tags_get_id c (Str n)")
    case (Some i)
    then show ?thesis using 3(2)[OF Some] 3(3) by simp
  next
    case None
    obtain x c' where new: "tags_new c n = (x, c')" by (cases "tags_new c n")
    have v': "valid_db (db c')" using valid_db_tags_new[OF 3(3), of n] new by simp
    show ?thesis
    proof (cases x)
      case (Inl e)
      then show ?thesis using None new v' by simp
    next
      case (Inr b)
      then show ?thesis using 3(1)[OF None new[symmetric] Inr] None new v' by simp
    qed
  qed
qed

lemma distinct_filter_map: "distinct (map f xs) \<Longrightarrow> distinct (map f (filter P xs))"
  by (induction xs) auto

lemma valid_db_preserved:
  assumes v: "valid_db (db c)"
  shows "valid_db (db (snd (tags_new c n)))"
    and "valid_db (db (snd (tags_remove c r)))"
    and "valid_db (db (snd (tags_rename c r dst)))"
    and "valid_db (db (snd (files_new c n p)))"
    and "valid_db (db (snd (files_remove c r)))"
    and "valid_db (db (snd (files_rename c r dst)))"
    and "valid_db (db (snd (files_add_tag c r t)))"
    and "valid_db (db (snd (files_remove_tag c r t)))"
    and "valid_db (db (snd (files_set_tags c r ts)))"
    and "valid_db (db (snd (options_set c n x)))"
    and "valid_db (db (snd (options_unset c n)))"
    and "valid_db (db (snd (selections_new c n s)))"
    and "valid_db (db (snd (selections_remove c n)))"
    and "valid_db (db (snd (selections_rename c n dst)))"
proof -
  show "valid_db (db (snd (tags_new c n)))" by (rule valid_db_tags_new[OF v])
  show "valid_db (db (snd (tags_remove c r)))"
    using v by (auto simp: tags_remove_def Let_def commit_def execute_def delete_tag_files_tag_id_def
        delete_tags_id_def valid_db_def distinct_filter_map list_all_iff)
  show "valid_db (db (snd (tags_rename c r dst)))"
  proof (cases "r = Str ALL_NAME \<or> dst = ALL_NAME")
    case True
    then show ?thesis using v by (auto simp: tags_rename_def)
  next
    case False
    then have dst: "dst \<noteq> ALL_NAME" by simp
    show ?thesis
    proof (cases r)
      case (Str m)
      then show ?thesis using False v valid_db_update_tags_name[OF v dst, of "\<lambda>r. t_name r = m"]
        by (cases "update_tags_name (\<lambda>r. t_name r = m) dst (db c)") (simp_all add: tags_rename_def commit_def)
    next
      case (Num i)
      then show ?thesis using False v valid_db_update_tags_name[OF v dst, of "\<lambda>r. t_id r = i"]
        by (cases "update_tags_name (\<lambda>r. t_id r = i) dst (db c)") (simp_all add: tags_rename_def commit_def)
    qed
  qed
  show "valid_db (db (snd (files_new c n p)))"
    using v next_rowid_fresh[of "map f_id (files (db c))"]
    by (simp add: files_new_def commit_def execute_def insert_files_def valid_db_def)
  show "valid_db (db (snd (files_remove c r)))"
    using v by (simp add: files_remove_def Let_def commit_def execute_def delete_tag_files_file_id_def
        delete_files_id_def valid_db_def distinct_filter_map)
  have m: "\<And>P. map f_id (map (\<lambda>r. if P r then r\<lparr>f_name := dst\<rparr> else r) (files (db c))) = map f_id (files (db c))"
    by (rule update_files_keeps_ids)
  show "valid_db (db (snd (files_rename c r dst)))"
    using v by (cases r) (simp_all add: files_rename_def Let_def commit_def execute_def update_files_name_def
        valid_db_def m del: map_map)
  show "valid_db (db (snd (files_add_tag c r t)))"
    using v by (simp add: files_add_tag_def commit_def)
  show "valid_db (db (snd (files_remove_tag c r t)))"
    using v by (simp add: files_remove_tag_def commit_def execute_def delete_tag_files_both_def valid_db_def)
  have "valid_db (db (execute (delete_tag_files_file_id (files_get_id c r)) c))"
    using v by (simp add: execute_def delete_tag_files_file_id_def valid_db_def)
  from valid_db_set_tags_loop[OF this, of "files_get_id c r" ts]
  show "valid_db (db (snd (files_set_tags c r ts)))"
    by (cases "set_tags_loop (execute (delete_tag_files_file_id (files_get_id c r)) c) (files_get_id c r) ts")
       (auto simp: files_set_tags_def Let_def commit_def split: sum.splits)
  have "n \<notin> o_name ` set (filter (\<lambda>r. o_name r \<noteq> n) (options (db c)))" by auto
  then show "valid_db (db (snd (options_set c n x)))"
    using v by (simp add: options_set_def commit_def execute_def replace_options_def valid_db_def
        distinct_filter_map)
  show "valid_db (db (snd (options_unset c n)))"
    using v by (simp add: options_unset_def prepare_def sql_verbs_def)
  show "valid_db (db (snd (selections_new c n s)))"
    using v by (simp add: selections_new_def insert_selections_def commit_def valid_db_def)
  show "valid_db (db (snd (selections_remove c n)))"
    using v by (simp add: selections_remove_def commit_def execute_def delete_selections_def valid_db_def
        distinct_filter_map)
  show "valid_db (db (snd (selections_rename c n dst)))"
    using v by (auto simp: selections_rename_def update_selections_name_def Let_def commit_def valid_db_def)
qed

text \<open>So every reachable store is valid, and the example store is a reachable one.\<close>

lemma valid_db_perform: "valid_db (db c) \<Longrightarrow> valid_db (db (perform call c))"
  by (cases call) (simp_all add: valid_db_preserved)

lemma reachable_valid: "reachable c \<Longrightarrow> valid_db (db c)"
  by (induction rule: reachable.induct) (simp_all add: valid_db_INIT valid_db_perform)

lemma photo_store_reachable_db:
  "db (perform (SelectionsNew ''photos'' ''tags.id=1'')
        (perform (FilesAddTag (Str ''a.jpg'') (Str ''photo''))
          (perform (FilesNew ''a.jpg'' ''/home/a.jpg'')
            (perform (TagsNew ''photo'') connect)))) = photo_db"
  by (simp add: tags_new_def files_new_def files_add_tag_def selections_new_def insert_tags_def insert_files_def
     insert_tag_files_def insert_selections_def next_rowid_def tags_get_id_def files_get_id_def
     commit_def execute_def connect_def INIT_def photo_db_def)

end
